theory Spec2Isabelle
  imports Main "HOL-Library.Word"
begin

section \<open>Python strings\<close>

text \<open>
  A Python \<open>str\<close> is modelled as a \<open>string\<close>, a list of characters, each character
  read as a code point below 256. \<open>len\<close> is \<open>length\<close>. The string methods the two
  Lambda functions use are written out below for this range of code points.
\<close>

text \<open>
  \<open>str.isspace\<close> on one character, which is what \<open>str.split()\<close> and \<open>str.strip()\<close>
  test: tab, line feed, vertical tab, form feed, carriage return, the four separators
  28 to 31, space, next line (133) and no-break space (160).
\<close>

definition is_space :: "char \<Rightarrow> bool" where
  "is_space c = (of_char c \<in> {9, 10, 11, 12, 13, 28, 29, 30, 31, 32, 133, 160 :: nat})"

text \<open>
  \<open>str.lower\<close> on one character: the letters A to Z and the accented capitals 192 to 222
  (without the multiplication sign 215) move up by 32; every other character stays.
\<close>

definition lower_char :: "char \<Rightarrow> char" where
  "lower_char c =
     (let n = of_char c :: nat
      in if (65 \<le> n \<and> n \<le> 90) \<or> (192 \<le> n \<and> n \<le> 222 \<and> n \<noteq> 215)
         then char_of (n + 32) else c)"

definition lower :: "string \<Rightarrow> string" where
  "lower s = map lower_char s"

text \<open>
  \<open>s.split()\<close>: the maximal runs of characters that are not white space, in order.
  \<open>split_acc cur s\<close> is the scanning loop, \<open>cur\<close> the word read so far.
\<close>

fun split_acc :: "string \<Rightarrow> string \<Rightarrow> string list" where
  "split_acc cur [] = (if cur = [] then [] else [cur])"
| "split_acc cur (c # cs) =
     (if is_space c
      then (if cur = [] then split_acc [] cs else cur # split_acc [] cs)
      else split_acc (cur @ [c]) cs)"

definition split :: "string \<Rightarrow> string list" where
  "split s = split_acc [] s"

text \<open>
  \<open>s.split(sep)\<close> for a separator of one character: one piece more than there are
  separators, empty pieces kept (\<open>''''.split('','')\<close> is the list of one empty string).
\<close>

fun split_on_acc :: "char \<Rightarrow> string \<Rightarrow> string \<Rightarrow> string list" where
  "split_on_acc sep cur [] = [cur]"
| "split_on_acc sep cur (c # cs) =
     (if c = sep then cur # split_on_acc sep [] cs else split_on_acc sep (cur @ [c]) cs)"

definition split_on :: "char \<Rightarrow> string \<Rightarrow> string list" where
  "split_on sep s = split_on_acc sep [] s"

text \<open>
  \<open>s.strip(chars)\<close> removes the characters of \<open>chars\<close> from both ends of \<open>s\<close>;
  \<open>s.strip()\<close> removes white space from both ends.
\<close>

definition strip_chars :: "string \<Rightarrow> string \<Rightarrow> string" where
  "strip_chars chars s =
     rev (dropWhile (\<lambda>c. c \<in> set chars) (rev (dropWhile (\<lambda>c. c \<in> set chars) s)))"

definition strip :: "string \<Rightarrow> string" where
  "strip s = rev (dropWhile is_space (rev (dropWhile is_space s)))"

text \<open>\<open>sep.join(xs)\<close>.\<close>

fun join :: "string \<Rightarrow> string list \<Rightarrow> string" where
  "join sep [] = []"
| "join sep [x] = x"
| "join sep (x # y # ys) = x @ sep @ join sep (y # ys)"

text \<open>\<open>s.endswith(suffix)\<close>, and \<open>s.endswith\<close> of a tuple of suffixes.\<close>

definition endswith :: "string \<Rightarrow> string \<Rightarrow> bool" where
  "endswith s suffix =
     (length suffix \<le> length s \<and> drop (length s - length suffix) s = suffix)"

definition endswith_any :: "string \<Rightarrow> string list \<Rightarrow> bool" where
  "endswith_any s suffixes = list_ex (endswith s) suffixes"

text \<open>\<open>s.replace(old, new)\<close> for \<open>old\<close> and \<open>new\<close> of one character each.\<close>

definition replace :: "char \<Rightarrow> char \<Rightarrow> string \<Rightarrow> string" where
  "replace old new s = map (\<lambda>c. if c = old then new else c) s"


section \<open>search-photos: keywords\<close>

definition STOP_WORDS :: "string set" where
  "STOP_WORDS = {''the'', ''a'', ''an'', ''and'', ''or'', ''but'', ''in'', ''on'', ''at'',
     ''to'', ''for'', ''of'', ''with'', ''by'', ''show'', ''me'', ''find'', ''search'',
     ''photos'', ''pictures'', ''images''}"

text \<open>
  \<open>normalize_plural\<close>, branch by branch. \<open>word[:-k]\<close> is \<open>take (length word - k) word\<close>.
  In the source the test of the five suffixes is an \<open>if\<close> without \<open>else\<close> nested in the
  \<open>elif\<close> for \<open>''es''\<close>: a word that ends in \<open>''es''\<close> and in none of the five leaves the
  chain there and reaches the final \<open>return word\<close>.
\<close>

definition normalize_plural :: "string \<Rightarrow> string" where
  "normalize_plural word =
     (if length word \<le> 3 then word
      else if endswith word ''ies'' \<and> length word > 4
        then take (length word - 3) word @ ''y''
      else if endswith word ''es'' \<and> length word > 3
        then (if endswith_any word [''ches'', ''shes'', ''xes'', ''zes'', ''sses'']
              then take (length word - 2) word
              else word)
      else if endswith word ''s'' \<and> length word > 3
        then take (length word - 1) word
      else word)"

text \<open>
  \<open>extract_keywords_from_text\<close>: the comprehension tests each word as split (stop word,
  length) and only then strips the punctuation from the words it keeps.
\<close>

definition extract_keywords_from_text :: "string \<Rightarrow> string list" where
  "extract_keywords_from_text text =
     (let words = split (lower text);
          keywords = map (strip_chars ''.,!?'')
                       (filter (\<lambda>word. word \<notin> STOP_WORDS \<and> length word > 2) words)
      in map normalize_plural keywords)"


section \<open>search-photos: slots and the response of the intent recognition\<close>

text \<open>
  A Lex slot is \<open>None\<close> (JSON null), or a dictionary that may hold the key \<open>value\<close>,
  itself a dictionary that may hold \<open>interpretedValue\<close>. The slots are the items of a
  dictionary, in its order.
\<close>

record value_dict =
  interpretedValue :: "string option"

record slot_dict =
  slot_value :: "value_dict option"

type_synonym slots = "(string \<times> slot_dict option) list"

text \<open>
  \<open>extract_keywords_from_slots\<close>: \<open>slots_loop keywords slots\<close> is the \<open>for\<close> loop,
  \<open>keywords\<close> the list extended so far.
\<close>

fun slots_loop :: "string list \<Rightarrow> slots \<Rightarrow> string list" where
  "slots_loop keywords [] = keywords"
| "slots_loop keywords ((slot_name, slot) # rest) =
     (case slot of
        None \<Rightarrow> slots_loop keywords rest
      | Some d \<Rightarrow>
          (case slot_value d of
             None \<Rightarrow> slots_loop keywords rest
           | Some v \<Rightarrow>
               (let interpreted_value =
                      (case interpretedValue v of None \<Rightarrow> [] | Some s \<Rightarrow> s)
                in if interpreted_value \<noteq> []
                   then slots_loop (keywords @ extract_keywords_from_text interpreted_value) rest
                   else slots_loop keywords rest)))"

definition extract_keywords_from_slots :: "slots \<Rightarrow> string list" where
  "extract_keywords_from_slots slots = slots_loop [] slots"

record intent =
  slots :: "slots option"

record session_state =
  intent :: "intent option"

text \<open>
  The response of \<open>recognize_text\<close>: the entry \<open>sessionState\<close> if there is one, and the
  number of its other entries (a dictionary is false in Python when it has no entry).
\<close>

record lex_response =
  sessionState :: "session_state option"
  other_entries :: nat

definition extract_keywords_from_lex_response :: "lex_response \<Rightarrow> string list" where
  "extract_keywords_from_lex_response r =
     (case sessionState r of
        None \<Rightarrow> []
      | Some ss \<Rightarrow>
          (case intent ss of
             None \<Rightarrow> []
           | Some i \<Rightarrow>
               (let keywords =
                      extract_keywords_from_slots (case slots i of None \<Rightarrow> [] | Some s \<Rightarrow> s)
                in if keywords \<noteq> [] then keywords else [])))"


section \<open>The collaborators\<close>

datatype py_exn =
    KeyError string
  | AttributeError
  | ParamValidationError
  | ClientError
  | ConnectionError
  | HTTPError nat
  | ValueError

type_synonym bytes = "8 word list"

record credentials =
  access_key :: string
  secret_key :: string
  token :: string

datatype aws4auth = AWS4Auth string string string string string

datatype pyval = PStr string | PList "string list"

type_synonym photo_document = "(string \<times> pyval) list"

record search_query =
  should_match_labels :: "string list"
  minimum_should_match :: nat
  query_size :: nat

text \<open>
  What a search answers: a status and a body, which is not JSON, or JSON whose
  \<open>hits.hits\<close> (the empty list where a key is missing) holds for each hit its
  \<open>_source\<close> dictionary when it has one.
\<close>

record source_dict =
  src_bucket :: "string option"
  src_objectKey :: "string option"
  src_labels :: "string list option"

datatype search_body = NotJSON | Hits "source_dict option list"

record search_response =
  status_code :: nat
  json :: search_body

record lex_request =
  botId :: string
  botAliasId :: string
  localeId :: string
  sessionId :: string
  request_text :: string

text \<open>
  A request to the search index that the index does not serve: it is lost on the way
  (\<open>requests\<close> raises), or it is answered with the given status and nothing is done.
\<close>

datatype fault = Transport | Status nat

text \<open>
  Everything the two functions read from outside: the environment variables, the
  credentials of the session (\<open>None\<close> when it has none), the clock, for an object of
  the store its body and its metadata or the exception of the client, the label names
  Rekognition answers with, the MD5 digest in hexadecimal, what Lex and the search
  answer, and the faults of the requests for one document of the index.
\<close>

record env =
  environ :: "string \<Rightarrow> string option"
  get_credentials :: "credentials option"
  now_isoformat :: string
  s3_get_object :: "string \<Rightarrow> string \<Rightarrow> py_exn + bytes"
  s3_head_object :: "string \<Rightarrow> string \<Rightarrow> py_exn + (string \<Rightarrow> string option)"
  rekognition_detect_labels :: "string \<Rightarrow> string \<Rightarrow> py_exn + string list"
  md5_hexdigest :: "bytes \<Rightarrow> string"
  lex_client :: "py_exn option"
  recognize_text :: "lex_request \<Rightarrow> py_exn + lex_response"
  requests_post :: "string \<Rightarrow> aws4auth \<Rightarrow> search_query \<Rightarrow> py_exn + search_response"
  head_fault :: "string \<Rightarrow> fault option"
  put_fault :: "string \<Rightarrow> fault option"

definition OPENSEARCH_ENDPOINT :: "env \<Rightarrow> string" where
  "OPENSEARCH_ENDPOINT e =
     (case environ e ''OPENSEARCH_ENDPOINT'' of None \<Rightarrow> [] | Some v \<Rightarrow> v)"

definition OPENSEARCH_INDEX :: string where
  "OPENSEARCH_INDEX = ''photos''"

definition SERVICE :: string where
  "SERVICE = ''es''"

definition AWS_REGION :: string where
  "AWS_REGION = ''us-east-1''"

text \<open>
  The \<open>AWS4Auth\<close> both functions build from the credentials; reading a field of
  \<open>None\<close> raises.
\<close>

definition make_awsauth :: "env \<Rightarrow> py_exn + aws4auth" where
  "make_awsauth e =
     (case get_credentials e of
        None \<Rightarrow> Inl AttributeError
      | Some c \<Rightarrow> Inr (AWS4Auth (access_key c) (secret_key c) AWS_REGION SERVICE (token c)))"

datatype os_request =
    HEAD string aws4auth
  | PUT string aws4auth photo_document
  | POST string aws4auth search_query


section \<open>search-photos: the search and the API handler\<close>

text \<open>
  The functions of search-photos pass along the list of the requests sent to the
  search index so far. Their \<open>print\<close> calls are left out.
\<close>

record photo =
  url :: string
  labels :: "string list"

text \<open>
  The loop over the hits: \<open>hit[''_source'']\<close> raises for a hit without the key,
  \<open>source.get\<close> supplies the defaults.
\<close>

fun parse_hits :: "source_dict option list \<Rightarrow> py_exn + photo list" where
  "parse_hits [] = Inr []"
| "parse_hits (hit # hits) =
     (case hit of
        None \<Rightarrow> Inl (KeyError ''_source'')
      | Some source \<Rightarrow>
          (let bucket = (case src_bucket source of None \<Rightarrow> [] | Some b \<Rightarrow> b);
               object_key = (case src_objectKey source of None \<Rightarrow> [] | Some k \<Rightarrow> k);
               s3_url = ''https://'' @ bucket @ ''.s3.'' @ AWS_REGION @ ''.amazonaws.com/''
                          @ object_key;
               result = \<lparr>url = s3_url,
                         labels = (case src_labels source of None \<Rightarrow> [] | Some l \<Rightarrow> l)\<rparr>
           in (case parse_hits hits of
                 Inl e \<Rightarrow> Inl e
               | Inr results \<Rightarrow> Inr (result # results))))"

text \<open>The \<open>try\<close> block of \<open>search_photos_in_opensearch\<close>.\<close>

definition search_try ::
  "env \<Rightarrow> os_request list \<Rightarrow> string list \<Rightarrow> (py_exn + photo list) \<times> os_request list" where
  "search_try e reqs keywords =
     (case make_awsauth e of
        Inl x \<Rightarrow> (Inl x, reqs)
      | Inr awsauth \<Rightarrow>
          (let query = \<lparr>should_match_labels = keywords, minimum_should_match = 1,
                        query_size = 50\<rparr>;
               url = OPENSEARCH_ENDPOINT e @ ''/'' @ OPENSEARCH_INDEX @ ''/_search'';
               reqs' = reqs @ [POST url awsauth query]
           in (case requests_post e url awsauth query of
                 Inl x \<Rightarrow> (Inl x, reqs')
               | Inr response \<Rightarrow>
                   if 400 \<le> status_code response \<and> status_code response < 600
                   then (Inl (HTTPError (status_code response)), reqs')
                   else (case json response of
                           NotJSON \<Rightarrow> (Inl ValueError, reqs')
                         | Hits hits \<Rightarrow> (parse_hits hits, reqs')))))"

definition search_photos_in_opensearch ::
  "env \<Rightarrow> os_request list \<Rightarrow> string list \<Rightarrow> photo list \<times> os_request list" where
  "search_photos_in_opensearch e reqs keywords =
     (if keywords = [] then ([], reqs)
      else if OPENSEARCH_ENDPOINT e = [] then ([], reqs)
      else (case search_try e reqs keywords of
              (Inl x, reqs') \<Rightarrow> ([], reqs')
            | (Inr results, reqs') \<Rightarrow> (results, reqs')))"

text \<open>
  \<open>query_lex_bot\<close>: \<open>None\<close> when the client cannot be made, when no bot is configured
  and when \<open>recognize_text\<close> raises, be it the client that refuses the request before
  sending it (a bot id that is too short) or the service.
\<close>

definition query_lex_bot :: "env \<Rightarrow> string \<Rightarrow> lex_response option" where
  "query_lex_bot e user_input =
     (case lex_client e of
        Some x \<Rightarrow> None
      | None \<Rightarrow>
          (let bot_id = (case environ e ''LEX_BOT_ID'' of None \<Rightarrow> [] | Some v \<Rightarrow> v);
               bot_alias_id =
                 (case environ e ''LEX_BOT_ALIAS_ID'' of None \<Rightarrow> ''TSTALIASID'' | Some v \<Rightarrow> v)
           in if bot_id = [] then None
              else (case recognize_text e
                           \<lparr>botId = bot_id, botAliasId = bot_alias_id, localeId = ''en_US'',
                            sessionId = ''search-session'', request_text = user_input\<rparr> of
                      Inl x \<Rightarrow> None
                    | Inr response \<Rightarrow> Some response)))"

text \<open>
  The event of the API gateway: \<open>queryStringParameters\<close>, \<open>None\<close> when the key is
  missing or null. The answer: status, headers and the body before \<open>json.dumps\<close>.
\<close>

record api_event =
  queryStringParameters :: "(string \<Rightarrow> string option) option"

datatype response_body =
    ErrorBody string
  | SearchBody string "string list" "photo list"

record api_response =
  statusCode :: nat
  headers :: "(string \<times> string) list"
  body :: response_body

definition cors_headers :: "(string \<times> string) list" where
  "cors_headers = [(''Access-Control-Allow-Origin'', ''*''),
                   (''Content-Type'', ''application/json'')]"

text \<open>
  The keywords \<open>handle_api_search\<close> resolves for a query (lines 155 to 164);
  \<open>not lex_response\<close> holds for \<open>None\<close> and for a dictionary without entries. Then the
  handler. No operation of its \<open>try\<close> block raises on an event of this type, so the
  answer with status 500 of its \<open>except\<close> clause is not among the results.
\<close>

definition resolve_keywords :: "env \<Rightarrow> string \<Rightarrow> string list" where
  "resolve_keywords e user_query =
     (case query_lex_bot e user_query of
        None \<Rightarrow> extract_keywords_from_text user_query
      | Some lex_response \<Rightarrow>
          if sessionState lex_response = None \<and> other_entries lex_response = 0
          then extract_keywords_from_text user_query
          else extract_keywords_from_lex_response lex_response)"

definition handle_api_search ::
  "env \<Rightarrow> os_request list \<Rightarrow> api_event \<Rightarrow> api_response \<times> os_request list" where
  "handle_api_search e reqs event =
     (let query_params =
            (case queryStringParameters event of None \<Rightarrow> Map.empty | Some m \<Rightarrow> m);
          user_query = strip (case query_params ''q'' of None \<Rightarrow> [] | Some q \<Rightarrow> q)
      in if user_query = []
         then (\<lparr>statusCode = 400, headers = cors_headers,
                body = ErrorBody ''Query parameter q is required''\<rparr>, reqs)
         else
           (let keywords = resolve_keywords e user_query
            in if keywords = []
               then (\<lparr>statusCode = 200, headers = cors_headers,
                      body = SearchBody user_query [] []\<rparr>, reqs)
               else (case search_photos_in_opensearch e reqs keywords of
                       (search_results, reqs') \<Rightarrow>
                         (\<lparr>statusCode = 200, headers = cors_headers,
                           body = SearchBody user_query keywords search_results\<rparr>, reqs'))))"


section \<open>index-photos\<close>

text \<open>
  The search index as index-photos meets it: the documents it stores under their
  URLs, the requests it has been sent, and the lines \<open>get_photo_hash\<close> and
  \<open>index_photo\<close> have printed, one constructor for each \<open>print\<close> of the two
  functions with the values it shows (the line with the body of the write's response
  is left out, the status line before it is kept). The other functions of index-photos
  print too; those lines are not recorded.
\<close>

datatype log_line =
    Endpoint_not_configured
  | Error_generating_hash py_exn
  | Duplicate_photo_detected string
  | Photo_is_identical pyval
  | OpenSearch_response nat
  | New_photo_indexed string
  | Failed_to_index nat
  | Error_indexing py_exn

record world =
  os_docs :: "string \<Rightarrow> photo_document option"
  os_requests :: "os_request list"
  stdout :: "log_line list"

definition print :: "log_line \<Rightarrow> world \<Rightarrow> world" where
  "print l w = w\<lparr>stdout := stdout w @ [l]\<rparr>"

text \<open>
  \<open>requests.head\<close> and \<open>requests.put\<close> on a document URL. The index answers a served
  \<open>HEAD\<close> with 200 when it stores a document under the URL and with 404 when not; it
  stores the document of a served \<open>PUT\<close> and answers 201 when the URL was free, 200 when
  it replaced a document.
\<close>

definition requests_head ::
  "env \<Rightarrow> world \<Rightarrow> string \<Rightarrow> aws4auth \<Rightarrow> (py_exn + nat) \<times> world" where
  "requests_head e w u auth =
     (let w' = w\<lparr>os_requests := os_requests w @ [HEAD u auth]\<rparr>
      in case head_fault e u of
           Some Transport \<Rightarrow> (Inl ConnectionError, w')
         | Some (Status n) \<Rightarrow> (Inr n, w')
         | None \<Rightarrow> (Inr (if os_docs w u = None then 404 else 200), w'))"

definition requests_put ::
  "env \<Rightarrow> world \<Rightarrow> string \<Rightarrow> aws4auth \<Rightarrow> photo_document \<Rightarrow> (py_exn + nat) \<times> world" where
  "requests_put e w u auth doc =
     (let w' = w\<lparr>os_requests := os_requests w @ [PUT u auth doc]\<rparr>
      in case put_fault e u of
           Some Transport \<Rightarrow> (Inl ConnectionError, w')
         | Some (Status n) \<Rightarrow> (Inr n, w')
         | None \<Rightarrow> (Inr (if os_docs w u = None then 201 else 200),
                    w'\<lparr>os_docs := (os_docs w)(u \<mapsto> doc)\<rparr>))"

text \<open>
  \<open>detect_labels\<close> and \<open>get_custom_labels\<close>: both answer the empty list when their
  request raises. S3 hands the metadata keys out in lower case.
\<close>

definition detect_labels :: "env \<Rightarrow> string \<Rightarrow> string \<Rightarrow> string list" where
  "detect_labels e bucket key =
     (case rekognition_detect_labels e bucket key of
        Inl x \<Rightarrow> []
      | Inr names \<Rightarrow> names)"

definition get_custom_labels :: "env \<Rightarrow> string \<Rightarrow> string \<Rightarrow> string list" where
  "get_custom_labels e bucket key =
     (case s3_head_object e bucket key of
        Inl x \<Rightarrow> []
      | Inr metadata \<Rightarrow>
          (let custom_labels_str =
                 (case metadata ''customlabels'' of None \<Rightarrow> [] | Some v \<Rightarrow> v)
           in if custom_labels_str \<noteq> []
              then map strip (split_on CHR '','' custom_labels_str)
              else []))"

text \<open>
  \<open>get_photo_hash\<close>. The read asks for the bytes 0 to 1023 of the object, the first
  1024 of \<open>s3_get_object\<close>'s body; an argument that is no string does not pass the
  validation of the client. The \<open>except\<close> clause answers with the key, \<open>/\<close> and \<open>.\<close>
  replaced; there \<open>key.replace\<close> raises when the key is no string.
\<close>

definition get_object_range :: "env \<Rightarrow> pyval \<Rightarrow> pyval \<Rightarrow> py_exn + bytes" where
  "get_object_range e bucket key =
     (case (bucket, key) of
        (PStr b, PStr k) \<Rightarrow>
          (case s3_get_object e b k of
             Inl x \<Rightarrow> Inl x
           | Inr content \<Rightarrow> Inr (take 1024 content))
      | _ \<Rightarrow> Inl ParamValidationError)"

definition get_photo_hash :: "env \<Rightarrow> world \<Rightarrow> pyval \<Rightarrow> pyval \<Rightarrow> (py_exn + string) \<times> world" where
  "get_photo_hash e w bucket key =
     (case get_object_range e bucket key of
        Inr content \<Rightarrow> (Inr (take 12 (md5_hexdigest e content)), w)
      | Inl x \<Rightarrow>
          (let w' = print (Error_generating_hash x) w
           in case key of
                PStr k \<Rightarrow> (Inr (replace CHR ''.'' CHR ''_'' (replace CHR ''/'' CHR ''_'' k)), w')
              | PList l \<Rightarrow> (Inl AttributeError, w')))"

definition document_id :: "string \<Rightarrow> string" where
  "document_id content_hash = ''photo_'' @ content_hash"

definition doc_url :: "env \<Rightarrow> string \<Rightarrow> string" where
  "doc_url e doc_id = OPENSEARCH_ENDPOINT e @ ''/'' @ OPENSEARCH_INDEX @ ''/_doc/'' @ doc_id"

text \<open>
  A dictionary subscript, and the \<open>try\<close> block of \<open>index_photo\<close> in the order of its
  statements. \<open>Inr False\<close> and \<open>Inr True\<close> are its \<open>return\<close> statements, \<open>Inl\<close> an
  exception that leaves the block.
\<close>

definition subscript :: "photo_document \<Rightarrow> string \<Rightarrow> py_exn + pyval" where
  "subscript d k = (case map_of d k of None \<Rightarrow> Inl (KeyError k) | Some v \<Rightarrow> Inr v)"

definition index_photo_try ::
  "env \<Rightarrow> world \<Rightarrow> photo_document \<Rightarrow> (py_exn + bool) \<times> world" where
  "index_photo_try e w photo_document =
     (case make_awsauth e of
        Inl x \<Rightarrow> (Inl x, w)
      | Inr awsauth \<Rightarrow>
     (case subscript photo_document ''bucket'' of
        Inl x \<Rightarrow> (Inl x, w)
      | Inr bucket \<Rightarrow>
     (case subscript photo_document ''objectKey'' of
        Inl x \<Rightarrow> (Inl x, w)
      | Inr key \<Rightarrow>
     (case get_photo_hash e w bucket key of
        (Inl x, w1) \<Rightarrow> (Inl x, w1)
      | (Inr content_hash, w1) \<Rightarrow>
     (case requests_head e w1 (doc_url e (document_id content_hash)) awsauth of
        (Inl x, w2) \<Rightarrow> (Inl x, w2)
      | (Inr check_status, w2) \<Rightarrow>
          if check_status = 200
          then (Inr False,
                print (Photo_is_identical key) (print (Duplicate_photo_detected content_hash) w2))
          else
     (case requests_put e w2 (doc_url e (document_id content_hash)) awsauth photo_document of
        (Inl x, w3) \<Rightarrow> (Inl x, w3)
      | (Inr status, w3) \<Rightarrow>
          (let w4 = print (OpenSearch_response status) w3
           in if status = 200 \<or> status = 201
              then (Inr True, print (New_photo_indexed content_hash) w4)
              else (Inr False, print (Failed_to_index status) w4))))))))"

text \<open>
  \<open>index_photo\<close>: \<open>Inr None\<close> is the bare \<open>return\<close> without an endpoint, \<open>Inr (Some b)\<close>
  the return of the Boolean \<open>b\<close>, and \<open>Inl\<close> would be an exception that reaches the
  caller. The \<open>except\<close> clause turns every exception of the block into \<open>False\<close>.
\<close>

definition index_photo ::
  "env \<Rightarrow> world \<Rightarrow> photo_document \<Rightarrow> (py_exn + bool option) \<times> world" where
  "index_photo e w photo_document =
     (if OPENSEARCH_ENDPOINT e = []
      then (Inr None, print Endpoint_not_configured w)
      else (case index_photo_try e w photo_document of
              (Inl x, w') \<Rightarrow> (Inr (Some False), print (Error_indexing x) w')
            | (Inr b, w') \<Rightarrow> (Inr (Some b), w')))"

text \<open>
  The body of the loop of \<open>handle_s3_indexing\<close> for one record, from the bucket and
  the decoded key on: the labels of both sources, the document, the indexing.
\<close>

definition all_labels :: "env \<Rightarrow> string \<Rightarrow> string \<Rightarrow> string list" where
  "all_labels e bucket key = detect_labels e bucket key @ get_custom_labels e bucket key"

definition make_photo_document :: "env \<Rightarrow> string \<Rightarrow> string \<Rightarrow> photo_document" where
  "make_photo_document e bucket key =
     [(''objectKey'', PStr key),
      (''bucket'', PStr bucket),
      (''createdTimestamp'', PStr (now_isoformat e)),
      (''labels'', PList (all_labels e bucket key))]"

definition index_record :: "env \<Rightarrow> world \<Rightarrow> string \<Rightarrow> string \<Rightarrow> world" where
  "index_record e w bucket key =
     (if OPENSEARCH_ENDPOINT e \<noteq> []
      then snd (index_photo e w (make_photo_document e bucket key))
      else w)"


section \<open>Notions of the specification\<close>

text \<open>A text without punctuation: none of the four characters the normalizer strips.\<close>

definition no_punct :: "string \<Rightarrow> bool" where
  "no_punct s = list_all (\<lambda>c. c \<notin> set ''.,!?'') s"

text \<open>
  The interpreted values of the slots that have one which is not empty, in the order
  of the slots.
\<close>

definition nonempty_interpreted_values :: "slots \<Rightarrow> string list" where
  "nonempty_interpreted_values items =
     List.map_filter
       (\<lambda>(slot_name, slot).
          case slot of
            None \<Rightarrow> None
          | Some d \<Rightarrow>
              (case slot_value d of
                 None \<Rightarrow> None
               | Some v \<Rightarrow>
                   (case interpretedValue v of
                      None \<Rightarrow> None
                    | Some s \<Rightarrow> if s = [] then None else Some s)))
       items"

text \<open>The keywords an answer of the API handler carries.\<close>

definition response_keywords :: "api_response \<Rightarrow> string list option" where
  "response_keywords r =
     (case body r of
        ErrorBody msg \<Rightarrow> None
      | SearchBody user_query keywords results \<Rightarrow> Some keywords)"

text \<open>The write requests among the requests sent to the index.\<close>

fun is_write :: "os_request \<Rightarrow> bool" where
  "is_write (PUT u auth doc) = True"
| "is_write (HEAD u auth) = False"
| "is_write (POST u auth q) = False"

definition writes :: "world \<Rightarrow> os_request list" where
  "writes w = filter is_write (os_requests w)"

text \<open>
  What the last line \<open>index_photo\<close> printed says about the Boolean \<open>b\<close> it returned:
  a new photo was indexed and \<open>b\<close> is true, or \<open>b\<close> is false and the line tells of a
  duplicate, of a write answered with a status other than 200 and 201, or of an exception.
\<close>

definition told :: "bool \<Rightarrow> world \<Rightarrow> bool" where
  "told b w' = (stdout w' \<noteq> [] \<and>
         (case last (stdout w') of
            New_photo_indexed h \<Rightarrow> b
          | Photo_is_identical k \<Rightarrow> \<not> b
          | Failed_to_index status \<Rightarrow> \<not> b \<and> status \<noteq> 200 \<and> status \<noteq> 201
          | Error_indexing x \<Rightarrow> \<not> b
          | _ \<Rightarrow> False))"


section \<open>Examples\<close>

text \<open>
  An environment in which nothing is configured and every collaborator fails, and an
  index that stores nothing and has seen no request; the examples below change what
  they need.
\<close>

definition env0 :: env where
  "env0 = \<lparr>environ = Map.empty,
           get_credentials = None,
           now_isoformat = ''2024-01-01T00:00:00'',
           s3_get_object = (\<lambda>bucket key. Inl ClientError),
           s3_head_object = (\<lambda>bucket key. Inl ClientError),
           rekognition_detect_labels = (\<lambda>bucket key. Inl ClientError),
           md5_hexdigest = (\<lambda>content.
             if length content = 1024 then ''ffeeddccbbaa99887766554433221100''
             else ''00112233445566778899aabbccddeeff''),
           lex_client = None,
           recognize_text = (\<lambda>request. Inl ClientError),
           requests_post = (\<lambda>u auth query. Inl ConnectionError),
           head_fault = (\<lambda>u. None),
           put_fault = (\<lambda>u. None)\<rparr>"

definition world0 :: world where
  "world0 = \<lparr>os_docs = Map.empty, os_requests = [], stdout = []\<rparr>"

text \<open>
  The same with an endpoint, credentials and one object \<open>vacation/beach1.jpg\<close> in the
  bucket \<open>photos\<close>, and the document index-photos makes for this object.
\<close>

definition env1 :: env where
  "env1 = env0
     \<lparr>environ := [''OPENSEARCH_ENDPOINT'' \<mapsto> ''https://search.example''],
      get_credentials := Some \<lparr>access_key = ''AK'', secret_key = ''SK'', token = ''T''\<rparr>,
      s3_get_object := (\<lambda>bucket key.
        if bucket = ''photos'' \<and> key = ''vacation/beach1.jpg'' then Inr [1, 2, 3]
        else Inl ClientError),
      s3_head_object := (\<lambda>bucket key.
        if bucket = ''photos'' \<and> key = ''vacation/beach1.jpg''
        then Inr [''customlabels'' \<mapsto> ''Sunset, Family'']
        else Inl ClientError),
      rekognition_detect_labels := (\<lambda>bucket key.
        if bucket = ''photos'' \<and> key = ''vacation/beach1.jpg'' then Inr [''Beach'', ''Ocean'']
        else Inl ClientError)\<rparr>"

definition auth1 :: aws4auth where
  "auth1 = AWS4Auth ''AK'' ''SK'' ''us-east-1'' ''es'' ''T''"

definition doc1 :: photo_document where
  "doc1 = [(''objectKey'', PStr ''vacation/beach1.jpg''),
           (''bucket'', PStr ''photos''),
           (''createdTimestamp'', PStr ''2024-01-01T00:00:00''),
           (''labels'', PList [''Beach'', ''Ocean'', ''Sunset'', ''Family''])]"

definition url1 :: string where
  "url1 = ''https://search.example/photos/_doc/photo_001122334455''"

text \<open>
  An index that already stores, under that URL, the document of an older upload with
  the same fingerprint.
\<close>

definition doc0 :: photo_document where
  "doc0 = [(''objectKey'', PStr ''old/beach.jpg''),
           (''bucket'', PStr ''photos''),
           (''createdTimestamp'', PStr ''2023-06-01T00:00:00''),
           (''labels'', PList [''Beach''])]"

definition world1 :: world where
  "world1 = \<lparr>os_docs = [url1 \<mapsto> doc0], os_requests = [], stdout = []\<rparr>"

text \<open>
  An environment with a Lex bot, its id of the 10 characters a bot id has, that answers
  every text with an intent without slots, and a search event whose query is \<open>dogs\<close>
  between two spaces.
\<close>

definition lex1 :: lex_response where
  "lex1 = \<lparr>sessionState = Some \<lparr>intent = Some \<lparr>slots = Some []\<rparr>\<rparr>, other_entries = 1\<rparr>"

definition env2 :: env where
  "env2 = env1
     \<lparr>environ := [''OPENSEARCH_ENDPOINT'' \<mapsto> ''https://search.example'',
                  ''LEX_BOT_ID'' \<mapsto> ''ABCDE12345''],
      recognize_text := (\<lambda>request. Inr lex1)\<rparr>"

definition event1 :: api_event where
  "event1 = \<lparr>queryStringParameters = Some [''q'' \<mapsto> '' dogs '']\<rparr>"

text \<open>
  The same with two objects of 1025 and 1026 bytes that agree on their first 1024 bytes
  and differ after them.
\<close>

definition env3 :: env where
  "env3 = env1
     \<lparr>s3_get_object := (\<lambda>bucket key.
        if bucket = ''photos'' \<and> key = ''a.jpg'' then Inr (replicate 1024 7 @ [1])
        else if bucket = ''photos'' \<and> key = ''b.jpg'' then Inr (replicate 1024 7 @ [2, 3])
        else Inl ClientError)\<rparr>"


section \<open>Facts about the string functions\<close>

text \<open>The code point \<open>lower_char\<close> gives, and what follows for the tests on characters.\<close>

lemma of_char_lower:
  "of_char (lower_char c) =
     (let n = of_char c :: nat
      in if (65 \<le> n \<and> n \<le> 90) \<or> (192 \<le> n \<and> n \<le> 222 \<and> n \<noteq> 215)
         then n + 32 else n)"
  by (simp add: lower_char_def Let_def)

lemma is_space_lower [simp]: "is_space (lower_char c) = is_space c"
  unfolding is_space_def of_char_lower Let_def by auto

lemma lower_char_idem [simp]: "lower_char (lower_char c) = lower_char c"
proof -
  have "(of_char (lower_char (lower_char c)) :: nat) = of_char (lower_char c)"
    unfolding of_char_lower Let_def by auto
  then show ?thesis by simp
qed

lemma punct_of_char: "c \<in> set ''.,!?'' \<longleftrightarrow> (of_char c :: nat) \<in> {46, 44, 33, 63}"
proof -
  have eq: "c = d \<longleftrightarrow> (of_char c :: nat) = of_char d" for d by simp
  show ?thesis by (auto simp: eq)
qed

lemma lower_char_punct [simp]: "lower_char c \<in> set ''.,!?'' \<longleftrightarrow> c \<in> set ''.,!?''"
  unfolding punct_of_char of_char_lower Let_def by auto

lemma lower_char_y: "lower_char CHR ''y'' = CHR ''y''" "lower_char CHR '' '' = CHR '' ''"
  by (simp_all add: lower_char_def)

lemma not_space_y: "\<not> is_space CHR ''y''" "is_space CHR '' ''"
  by (simp_all add: is_space_def)

lemma lower_idem [simp]: "lower (lower s) = lower s"
  by (simp add: lower_def)

subsection \<open>Splitting at white space\<close>

lemma split_acc_nonempty: "w \<in> set (split_acc cur s) \<Longrightarrow> w \<noteq> []"
  by (induction s arbitrary: cur) (auto split: if_splits)

lemma split_acc_chars: "w \<in> set (split_acc cur s) \<Longrightarrow> c \<in> set w \<Longrightarrow> c \<in> set cur \<union> set s"
  by (induction s arbitrary: cur) (fastforce split: if_splits)+

lemma split_acc_no_space:
  "w \<in> set (split_acc cur s) \<Longrightarrow> list_all (\<lambda>c. \<not> is_space c) cur \<Longrightarrow> list_all (\<lambda>c. \<not> is_space c) w"
  by (induction s arbitrary: cur) (auto split: if_splits)

lemma split_word:
  assumes "w \<in> set (split s)"
  shows "w \<noteq> []" and "set w \<subseteq> set s" and "list_all (\<lambda>c. \<not> is_space c) w"
  using assms split_acc_nonempty [of w "[]" s] split_acc_chars [of w "[]" s]
    split_acc_no_space [of w "[]" s]
  by (auto simp: split_def)

lemma split_acc_append_word:
  "list_all (\<lambda>c. \<not> is_space c) w \<Longrightarrow> split_acc cur (w @ s) = split_acc (cur @ w) s"
  by (induction w arbitrary: cur) auto

lemma split_join:
  "list_all (\<lambda>t. t \<noteq> [] \<and> list_all (\<lambda>c. \<not> is_space c) t) ts \<Longrightarrow> split (join '' '' ts) = ts"
proof (induction ts rule: induct_list012)
  case 1
  then show ?case by (simp add: split_def)
next
  case (2 x)
  then show ?case using split_acc_append_word [of x "[]" "[]"] by (simp add: split_def)
next
  case (3 x y zs)
  then show ?case
    using split_acc_append_word [of x "[]" "'' '' @ join '' '' (y # zs)"]
    by (simp add: split_def not_space_y)
qed

subsection \<open>Stripping\<close>

lemma dropWhile_none: "list_all (\<lambda>c. \<not> P c) xs \<Longrightarrow> dropWhile P xs = xs"
  by (cases xs) auto

lemma strip_chars_id:
  "list_all (\<lambda>c. c \<notin> set chars) w \<Longrightarrow> strip_chars chars w = w"
  using dropWhile_none [of "\<lambda>c. c \<in> set chars" w]
    dropWhile_none [of "\<lambda>c. c \<in> set chars" "rev w"]
  by (simp add: strip_chars_def)

subsection \<open>Plural collapse\<close>

lemma normalize_plural_chars:
  "c \<in> set (normalize_plural w) \<Longrightarrow> c \<in> set w \<or> c = CHR ''y''"
  by (auto simp: normalize_plural_def split: if_splits dest: in_set_takeD)

lemma normalize_plural_length:
  "2 < length w \<Longrightarrow> 2 \<le> length (normalize_plural w)"
  by (auto simp: normalize_plural_def)

lemma endswith_tl: "endswith w (a # suffix) \<Longrightarrow> endswith w suffix"
proof -
  assume "endswith w (a # suffix)"
  then have l: "Suc (length suffix) \<le> length w"
    and d: "drop (length w - Suc (length suffix)) w = a # suffix"
    by (simp_all add: endswith_def)
  have "drop (length w - length suffix) w = drop (Suc (length w - Suc (length suffix))) w"
    using l by (simp add: Suc_diff_Suc)
  also have "\<dots> = tl (drop (length w - Suc (length suffix)) w)"
    by (simp add: drop_Suc drop_tl)
  finally show ?thesis using l d by (simp add: endswith_def)
qed

lemma endswith_ies_es: "endswith w ''ies'' \<Longrightarrow> endswith w ''es''"
  by (rule endswith_tl)

lemma normalize_plural_s:
  assumes "3 < length w" and "endswith w ''s''" and "\<not> endswith w ''es''"
  shows "normalize_plural w = butlast w"
  using assms endswith_ies_es [of w] by (auto simp: normalize_plural_def butlast_conv_take)

lemma normalize_plural_es:
  assumes "3 < length w" and "endswith w ''es''"
    and "\<not> endswith_any w [''ches'', ''shes'', ''xes'', ''zes'', ''sses'']"
    and "\<not> endswith w ''ies'' \<or> length w = 4"
  shows "normalize_plural w = w"
  using assms by (auto simp: normalize_plural_def)

lemma extract_no_strip:
  assumes "list_all (\<lambda>w. strip_chars ''.,!?'' w = w) (split (lower text))"
  shows "extract_keywords_from_text text =
         map normalize_plural
           (filter (\<lambda>word. word \<notin> STOP_WORDS \<and> length word > 2) (split (lower text)))"
proof -
  have "map (strip_chars ''.,!?'') (filter P (split (lower text))) = filter P (split (lower text))" for P
    using assms by (intro map_idI) (auto simp: list_all_iff)
  then show ?thesis unfolding extract_keywords_from_text_def Let_def by (simp only:)
qed

lemma no_punct_words:
  assumes "no_punct text"
  shows "list_all (\<lambda>w. strip_chars ''.,!?'' w = w) (split (lower text))"
proof -
  have "strip_chars ''.,!?'' w = w" if "w \<in> set (split (lower text))" for w
  proof (rule strip_chars_id)
    have "set w \<subseteq> set (lower text)" using that by (rule split_word)
    moreover have "c \<notin> set ''.,!?''" if "c \<in> set (lower text)" for c
      using that assms unfolding lower_def no_punct_def list_all_iff
      by (auto simp del: set_simps)
    ultimately show "list_all (\<lambda>c. c \<notin> set ''.,!?'') w"
      unfolding list_all_iff by blast
  qed
  then show ?thesis by (simp add: list_all_iff)
qed

text \<open>What the tokens of a text without punctuation look like.\<close>

lemma token_props:
  assumes "no_punct text" and "t \<in> set (extract_keywords_from_text text)"
  shows "t \<noteq> []" and "list_all (\<lambda>c. \<not> is_space c) t" and "lower t = t" and "no_punct t"
proof -
  from assms obtain w where w: "w \<in> set (split (lower text))" "2 < length w" and t: "t = normalize_plural w"
    by (auto simp: extract_no_strip [OF no_punct_words])
  show "t \<noteq> []" using normalize_plural_length [OF w(2)] t by auto
  have ws: "list_all (\<lambda>c. \<not> is_space c) w" and sub: "set w \<subseteq> set (lower text)"
    using w(1) by (rule split_word)+
  show "list_all (\<lambda>c. \<not> is_space c) t"
    unfolding list_all_iff t using normalize_plural_chars [of _ w] ws not_space_y
    by (auto simp: list_all_iff)
  have lw: "lower_char c = c" if "c \<in> set w" for c
    using that sub by (auto simp: lower_def)
  show "lower t = t"
    unfolding lower_def t using normalize_plural_chars [of _ w] lw lower_char_y
    by (intro map_idI) auto
  have "c \<notin> set ''.,!?''" if "c \<in> set w" for c
    using that sub assms(1) unfolding lower_def no_punct_def list_all_iff
    by (auto simp del: set_simps)
  then show "no_punct t"
    unfolding no_punct_def list_all_iff t using normalize_plural_chars [of _ w] by auto
qed

lemma lower_join:
  "list_all (\<lambda>t. lower t = t) ts \<Longrightarrow> lower (join '' '' ts) = join '' '' ts"
proof (induction ts rule: induct_list012)
  case (3 x y zs)
  then show ?case using lower_char_y(2) by (simp add: lower_def)
qed (simp_all add: lower_def)

lemma second_pass:
  assumes "no_punct x"
  shows "extract_keywords_from_text (join '' '' (extract_keywords_from_text x)) =
         map normalize_plural
           (filter (\<lambda>word. word \<notin> STOP_WORDS \<and> length word > 2)
              (extract_keywords_from_text x))"
proof -
  let ?ts = "extract_keywords_from_text x"
  note p = token_props [OF assms]
  have "lower (join '' '' ?ts) = join '' '' ?ts"
    using p(3) by (intro lower_join) (simp add: list_all_iff)
  moreover have "split (join '' '' ?ts) = ?ts"
    using p(1,2) by (intro split_join) (simp add: list_all_iff)
  moreover have "list_all (\<lambda>w. strip_chars ''.,!?'' w = w) ?ts"
    using p(4) strip_chars_id [of "''.,!?''"] by (simp add: list_all_iff no_punct_def)
  ultimately show ?thesis
    using extract_no_strip [of "join '' '' ?ts"] by simp
qed


section \<open>The keyword normalizer\<close>

text \<open>
  C3. The claim: every word longer than 3 that ends in \<open>s\<close> and is caught by neither
  the \<open>ies\<close> rule nor the \<open>es\<close> rule (which asks for one of the five suffixes) loses
  its last \<open>s\<close>. The word \<open>horses\<close> is such a word, and \<open>normalize_plural\<close> returns it
  as it is: it ends in \<open>es\<close>, so the chain stops in the branch of the \<open>es\<close> rule, whose
  inner test fails, and the branch that drops the \<open>s\<close> is never tried.
\<close>

theorem normalize_plural_horses:
  "3 < length ''horses'' \<and> endswith ''horses'' ''s'' \<and>
   \<not> (endswith ''horses'' ''ies'' \<and> 4 < length ''horses'') \<and>
   \<not> (endswith ''horses'' ''es'' \<and> 3 < length ''horses'' \<and>
      endswith_any ''horses'' [''ches'', ''shes'', ''xes'', ''zes'', ''sses'']) \<and>
   normalize_plural ''horses'' = ''horses'' \<and>
   normalize_plural ''horses'' \<noteq> take (length ''horses'' - 1) ''horses''"
  by (simp add: normalize_plural_def endswith_def endswith_any_def)

text \<open>
  C2, as stated, fails: \<open>shows\<close> is no stop word and collapses to the stop word
  \<open>show\<close>; \<open>the.\<close> is no stop word and is stripped to \<open>the\<close> after the test; \<open>a..\<close> has
  three characters when its length is tested and one after stripping; \<open>axes\<close> collapses
  to \<open>ax\<close>.
\<close>

theorem keywords_counterexample:
  "extract_keywords_from_text ''shows'' = [''show''] \<and> ''show'' \<in> STOP_WORDS \<and>
   extract_keywords_from_text ''the.'' = [''the''] \<and> ''the'' \<in> STOP_WORDS \<and>
   extract_keywords_from_text ''a..'' = [''a''] \<and> length ''a'' \<le> 2 \<and>
   extract_keywords_from_text ''axes'' = [''ax''] \<and> length ''ax'' \<le> 2"
proof -
  have "extract_keywords_from_text ''shows'' = [''show'']" by code_simp
  moreover have "extract_keywords_from_text ''the.'' = [''the'']" by code_simp
  moreover have "extract_keywords_from_text ''a..'' = [''a'']" by code_simp
  moreover have "extract_keywords_from_text ''axes'' = [''ax'']" by code_simp
  ultimately show ?thesis by (simp add: STOP_WORDS_def)
qed

text \<open>
  C2, amended. When no word of the lowered text begins or ends with one of the four
  punctuation characters, every token returned is the plural collapse of a word of the
  text that is no stop word and is longer than 2, and the token has at least 2
  characters.
\<close>

theorem keywords_from_unpunctuated_words:
  assumes "list_all (\<lambda>w. strip_chars ''.,!?'' w = w) (split (lower text))"
    and "t \<in> set (extract_keywords_from_text text)"
  shows "\<exists>w. w \<in> set (split (lower text)) \<and> w \<notin> STOP_WORDS \<and> 2 < length w \<and>
             t = normalize_plural w \<and> 2 \<le> length t"
  using assms(2) normalize_plural_length unfolding extract_no_strip [OF assms(1)] by auto

theorem keywords_from_unpunctuated_words_witness:
  "list_all (\<lambda>w. strip_chars ''.,!?'' w = w) (split (lower ''Show me dogs'')) \<and>
   ''dog'' \<in> set (extract_keywords_from_text ''Show me dogs'') \<and>
   (\<exists>w. w \<in> set (split (lower ''Show me dogs'')) \<and> w \<notin> STOP_WORDS \<and> 2 < length w \<and>
        ''dog'' = normalize_plural w \<and> 2 \<le> length ''dog'')"
proof -
  have s: "split (lower ''Show me dogs'') = [''show'', ''me'', ''dogs'']" by code_simp
  have e: "extract_keywords_from_text ''Show me dogs'' = [''dog'']" by code_simp
  have h1: "list_all (\<lambda>w. strip_chars ''.,!?'' w = w) (split (lower ''Show me dogs''))"
    unfolding s by (simp add: strip_chars_def)
  have h2: "''dog'' \<in> set (extract_keywords_from_text ''Show me dogs'')"
    unfolding e by simp
  show ?thesis using h1 h2 keywords_from_unpunctuated_words [OF h1 h2] by blast
qed

text \<open>
  C4, as stated, fails: \<open>glasses\<close> has no punctuation, its single pass gives \<open>glass\<close>,
  and the second pass over \<open>glass\<close> gives \<open>glas\<close>, which the single pass did not return.
\<close>

theorem normalizer_second_pass_counterexample:
  "no_punct ''glasses'' \<and>
   extract_keywords_from_text ''glasses'' = [''glass''] \<and>
   extract_keywords_from_text (join '' '' (extract_keywords_from_text ''glasses'')) = [''glas''] \<and>
   ''glas'' \<notin> set (extract_keywords_from_text ''glasses'')"
proof -
  have a: "extract_keywords_from_text ''glasses'' = [''glass'']" by code_simp
  have b: "extract_keywords_from_text ''glass'' = [''glas'']" by code_simp
  have h: "no_punct ''glasses''" by (simp add: no_punct_def)
  show ?thesis using h by (simp add: a b)
qed

text \<open>
  C4, amended. For every text without punctuation, every token of the second pass is
  the plural collapse of a token of the single pass.
\<close>

theorem normalizer_second_pass:
  assumes "no_punct x"
  shows "set (extract_keywords_from_text (join '' '' (extract_keywords_from_text x)))
         \<subseteq> normalize_plural ` set (extract_keywords_from_text x)"
  unfolding second_pass [OF assms] by auto

theorem normalizer_second_pass_witness:
  "no_punct ''glasses'' \<and>
   set (extract_keywords_from_text (join '' '' (extract_keywords_from_text ''glasses'')))
     \<subseteq> normalize_plural ` set (extract_keywords_from_text ''glasses'')"
proof -
  have h: "no_punct ''glasses''" by (simp add: no_punct_def)
  show ?thesis using h normalizer_second_pass [OF h] by simp
qed


section \<open>Slot resolution\<close>

lemma slots_loop_concat:
  "slots_loop kws items =
   kws @ concat (map extract_keywords_from_text (nonempty_interpreted_values items))"
proof (induction items arbitrary: kws)
  case Nil
  show ?case by (simp add: nonempty_interpreted_values_def)
next
  case (Cons item items)
  obtain slot_name slot where item: "item = (slot_name, slot)" by (cases item)
  show ?case unfolding item
    by (simp add: Cons nonempty_interpreted_values_def split: option.splits)
qed

text \<open>
  C8. \<open>extract_keywords_from_slots\<close> returns, in the order of the slots, the tokens of
  the normalized interpreted value of every slot that has one which is not empty; a
  slot that is null, has no \<open>value\<close>, no \<open>interpretedValue\<close> or an empty one adds
  nothing. For the two slots \<open>animal\<close> (\<open>Dogs\<close>) and \<open>color\<close> (empty) the result is
  the single token \<open>dog\<close>.
\<close>

theorem slots_keywords:
  "extract_keywords_from_slots items =
     concat (map extract_keywords_from_text (nonempty_interpreted_values items)) \<and>
   extract_keywords_from_slots
     [(''animal'', Some \<lparr>slot_value = Some \<lparr>interpretedValue = Some ''Dogs''\<rparr>\<rparr>),
      (''color'', Some \<lparr>slot_value = Some \<lparr>interpretedValue = Some ''''\<rparr>\<rparr>)] = [''dog'']"
proof -
  have "extract_keywords_from_text ''Dogs'' = [''dog'']" by code_simp
  then show ?thesis
    by (simp add: extract_keywords_from_slots_def slots_loop_concat
          nonempty_interpreted_values_def)
qed

theorem slots_keywords_witness:
  "extract_keywords_from_slots
     [(''place'', None),
      (''animal'', Some \<lparr>slot_value = Some \<lparr>interpretedValue = Some ''Dogs''\<rparr>\<rparr>),
      (''list'', Some \<lparr>slot_value = None\<rparr>),
      (''thing'', Some \<lparr>slot_value = Some \<lparr>interpretedValue = None\<rparr>\<rparr>),
      (''scene'', Some \<lparr>slot_value = Some \<lparr>interpretedValue = Some ''sunny beaches''\<rparr>\<rparr>)]
   = [''dog'', ''sunny'', ''beach'']"
proof -
  have "extract_keywords_from_text ''Dogs'' = [''dog'']" by code_simp
  moreover have "extract_keywords_from_text ''sunny beaches'' = [''sunny'', ''beach'']" by code_simp
  ultimately show ?thesis
    using slots_keywords [of "[(''place'', None),
      (''animal'', Some \<lparr>slot_value = Some \<lparr>interpretedValue = Some ''Dogs''\<rparr>\<rparr>),
      (''list'', Some \<lparr>slot_value = None\<rparr>),
      (''thing'', Some \<lparr>slot_value = Some \<lparr>interpretedValue = None\<rparr>\<rparr>),
      (''scene'', Some \<lparr>slot_value = Some \<lparr>interpretedValue = Some ''sunny beaches''\<rparr>\<rparr>)]"]
    by (simp add: nonempty_interpreted_values_def)
qed


section \<open>The query resolver\<close>

subsection \<open>Stripping white space before splitting\<close>

lemma split_acc_leading:
  "split_acc [] (dropWhile is_space s) = split_acc [] s"
  by (induction s) auto

lemma split_acc_trailing:
  "list_all is_space t \<Longrightarrow> split_acc cur (s @ t) = split_acc cur s"
proof (induction s arbitrary: cur)
  case Nil
  then show ?case by (induction t arbitrary: cur) auto
next
  case (Cons c s)
  then show ?case by simp
qed

lemma split_strip: "split (strip s) = split s"
proof -
  let ?d = "dropWhile is_space s"
  have "?d = rev (dropWhile is_space (rev ?d)) @ rev (takeWhile is_space (rev ?d))"
    by (metis rev_append rev_rev_ident takeWhile_dropWhile_id)
  moreover have "list_all is_space (rev (takeWhile is_space (rev ?d)))"
    by (auto simp: list_all_iff dest: set_takeWhileD)
  ultimately have "split_acc [] ?d = split_acc [] (rev (dropWhile is_space (rev ?d)))"
    using split_acc_trailing by metis
  then show ?thesis by (simp add: split_def strip_def split_acc_leading)
qed

lemma lower_strip: "lower (strip s) = strip (lower s)"
  by (simp add: lower_def strip_def dropWhile_map rev_map comp_def)

lemma extract_strip: "extract_keywords_from_text (strip q) = extract_keywords_from_text q"
  by (simp add: extract_keywords_from_text_def lower_strip split_strip)

lemma query_lex_bot_None:
  "query_lex_bot e user_input = None \<longleftrightarrow>
     lex_client e \<noteq> None \<or> environ e ''LEX_BOT_ID'' = None \<or> environ e ''LEX_BOT_ID'' = Some [] \<or>
     (\<exists>bot x. environ e ''LEX_BOT_ID'' = Some bot \<and>
        recognize_text e \<lparr>botId = bot,
          botAliasId = (case environ e ''LEX_BOT_ALIAS_ID'' of None \<Rightarrow> ''TSTALIASID'' | Some v \<Rightarrow> v),
          localeId = ''en_US'', sessionId = ''search-session'', request_text = user_input\<rparr> = Inl x)"
  by (auto simp: query_lex_bot_def Let_def split: option.splits sum.splits)

lemma handle_api_search_keywords:
  assumes "queryStringParameters event = Some params" and "params ''q'' = Some q"
    and "strip q \<noteq> []"
  shows "response_keywords (fst (handle_api_search e reqs event)) =
         Some (resolve_keywords e (strip q))"
  using assms
  by (simp add: handle_api_search_def response_keywords_def Let_def split: prod.splits)

text \<open>
  C5, amended. For a search request with a query that is not blank: when the bot
  returns nothing (\<open>None\<close>, or a response without entries), the keywords of the answer
  are the normalization of the raw query text; when it returns a response with
  entries, the keywords are those extracted from the slots of that response, the empty
  list when it has no usable structure, and the raw text is not consulted.
\<close>

theorem api_search_keywords:
  assumes "queryStringParameters event = Some params" and "params ''q'' = Some q"
    and "strip q \<noteq> []"
  shows "((query_lex_bot e (strip q) = None \<or>
           query_lex_bot e (strip q) = Some \<lparr>sessionState = None, other_entries = 0\<rparr>) \<longrightarrow>
            response_keywords (fst (handle_api_search e reqs event)) =
            Some (extract_keywords_from_text q)) \<and>
         (\<forall>r. query_lex_bot e (strip q) = Some r \<and>
              (sessionState r \<noteq> None \<or> other_entries r \<noteq> 0) \<longrightarrow>
            response_keywords (fst (handle_api_search e reqs event)) =
            Some (extract_keywords_from_lex_response r))"
  unfolding handle_api_search_keywords [OF assms]
  by (auto simp: resolve_keywords_def extract_strip)

lemma strip_dogs: "strip '' dogs '' = ''dogs''"
  by (simp add: strip_def is_space_def)

text \<open>
  C5, as stated, fails: the bot answers the query \<open>dogs\<close> with an intent without slots, no
  keyword can be extracted from the response, and the answer carries no keywords,
  whereas the normalization of the raw text is \<open>dog\<close>.
\<close>

theorem api_search_keywords_counterexample:
  "query_lex_bot env2 ''dogs'' = Some lex1 \<and>
   extract_keywords_from_lex_response lex1 = [] \<and>
   response_keywords (fst (handle_api_search env2 [] event1)) = Some [] \<and>
   extract_keywords_from_text ''dogs'' = [''dog'']"
proof -
  have a: "query_lex_bot env2 ''dogs'' = Some lex1"
    by (simp add: query_lex_bot_def env2_def env1_def env0_def)
  have b: "extract_keywords_from_lex_response lex1 = []"
    by (simp add: extract_keywords_from_lex_response_def lex1_def extract_keywords_from_slots_def)
  have c: "extract_keywords_from_text ''dogs'' = [''dog'']" by code_simp
  have "resolve_keywords env2 ''dogs'' = []"
    by (simp add: resolve_keywords_def a b) (simp add: lex1_def)
  then have "response_keywords (fst (handle_api_search env2 [] event1)) = Some []"
    by (simp add: handle_api_search_def event1_def strip_dogs response_keywords_def)
  with a b c show ?thesis by simp
qed

theorem api_search_keywords_witness:
  "query_lex_bot env1 (strip '' dogs '') = None \<and>
   response_keywords (fst (handle_api_search env1 [] event1)) = Some [''dog''] \<and>
   query_lex_bot env2 (strip '' dogs '') = Some lex1 \<and>
   response_keywords (fst (handle_api_search env2 [] event1)) = Some []"
proof -
  have h1: "queryStringParameters event1 = Some [''q'' \<mapsto> '' dogs '']"
    by (simp add: event1_def)
  have h2: "[''q'' \<mapsto> '' dogs ''] ''q'' = Some '' dogs ''" by simp
  have h3: "strip '' dogs '' \<noteq> []" by (simp add: strip_dogs)
  have a: "query_lex_bot env1 (strip '' dogs '') = None"
    by (simp add: query_lex_bot_def env1_def env0_def)
  have b: "query_lex_bot env2 (strip '' dogs '') = Some lex1"
    by (simp add: strip_dogs query_lex_bot_def env2_def env1_def env0_def)
  have c: "extract_keywords_from_text '' dogs '' = [''dog'']" by code_simp
  have d: "extract_keywords_from_lex_response lex1 = []"
    by (simp add: extract_keywords_from_lex_response_def lex1_def extract_keywords_from_slots_def)
  have e: "sessionState lex1 \<noteq> None" by (simp add: lex1_def)
  show ?thesis
    using api_search_keywords [OF h1 h2 h3, of env1 "[]"]
      api_search_keywords [OF h1 h2 h3, of env2 "[]"] a b c d e
    by auto
qed

section \<open>The search\<close>

text \<open>With keywords, an endpoint and credentials the search sends one request.\<close>

lemma search_sends_request:
  assumes "kws \<noteq> []" and "OPENSEARCH_ENDPOINT e \<noteq> []" and "make_awsauth e = Inr auth"
  shows "snd (search_photos_in_opensearch e reqs kws) =
         reqs @ [POST (OPENSEARCH_ENDPOINT e @ ''/photos/_search'') auth
                   \<lparr>should_match_labels = kws, minimum_should_match = 1, query_size = 50\<rparr>]"
  using assms
  by (simp add: search_photos_in_opensearch_def search_try_def Let_def OPENSEARCH_INDEX_def
        split: sum.splits search_body.splits prod.splits)

text \<open>
  C9. For the empty keyword list, and likewise without an endpoint, the search returns
  the empty result list and the list of requests sent to the index is as before.
\<close>

theorem search_without_request:
  assumes "kws = [] \<or> OPENSEARCH_ENDPOINT e = []"
  shows "search_photos_in_opensearch e reqs kws = ([], reqs)"
  using assms by (auto simp: search_photos_in_opensearch_def)

theorem search_without_request_witness:
  "search_photos_in_opensearch env1 [] [] = ([], []) \<and>
   search_photos_in_opensearch env0 [] [''dog''] = ([], [])"
proof -
  have "OPENSEARCH_ENDPOINT env0 = []" by (simp add: OPENSEARCH_ENDPOINT_def env0_def)
  then show ?thesis
    using search_without_request [of "[]" env1 "[]"]
      search_without_request [of "[''dog'']" env0 "[]"]
    by simp
qed


section \<open>The label aggregator\<close>

text \<open>The pieces of a split at a character, and the ends of a stripped string.\<close>

lemma split_on_acc_nonempty: "split_on_acc sep cur s \<noteq> []"
  by (induction s arbitrary: cur) auto

lemma join_Cons: "xs \<noteq> [] \<Longrightarrow> join sep (x # xs) = x @ sep @ join sep xs"
  by (cases xs) auto

lemma split_on_acc_join: "join [sep] (split_on_acc sep cur s) = cur @ s"
  by (induction s arbitrary: cur) (auto simp: join_Cons split_on_acc_nonempty)

lemma split_on_acc_no_sep:
  "p \<in> set (split_on_acc sep cur s) \<Longrightarrow> sep \<notin> set cur \<Longrightarrow> sep \<notin> set p"
proof (induction s arbitrary: cur)
  case Nil
  then show ?case by simp
next
  case (Cons c s)
  show ?case
  proof (cases "c = sep")
    case True
    with Cons.prems have "p = cur \<or> p \<in> set (split_on_acc sep [] s)" by simp
    then show ?thesis using Cons.prems(2) Cons.IH [of "[]"] by auto
  next
    case False
    with Cons.prems have "p \<in> set (split_on_acc sep (cur @ [c]) s)" by simp
    then show ?thesis using Cons.prems(2) False Cons.IH [of "cur @ [c]"] by auto
  qed
qed

lemma split_on_pieces:
  "join [sep] (split_on sep s) = s" and "p \<in> set (split_on sep s) \<Longrightarrow> sep \<notin> set p"
  using split_on_acc_join [of sep "[]" s] split_on_acc_no_sep [of p sep "[]" s]
  by (auto simp: split_on_def)

lemma split_on_length: "length (split_on sep s) = Suc (count_list s sep)"
proof -
  have "length (split_on_acc sep cur s) = Suc (count_list s sep)" for cur
    by (induction s arbitrary: cur) auto
  then show ?thesis by (simp add: split_on_def)
qed

lemma strip_ends:
  "strip s = [] \<or> (\<not> is_space (hd (strip s)) \<and> \<not> is_space (last (strip s)))"
proof -
  let ?d = "dropWhile is_space s"
  let ?r = "dropWhile is_space (rev ?d)"
  have 1: "?r = [] \<or> \<not> is_space (hd ?r)" by (metis hd_dropWhile)
  have 2: "?d = [] \<or> \<not> is_space (hd ?d)" by (metis hd_dropWhile)
  show ?thesis
  proof (cases "?r = []")
    case True
    then show ?thesis by (simp add: strip_def)
  next
    case False
    then have l: "\<not> is_space (last (rev ?r))" using 1 by (metis last_rev)
    from False have dne: "?d \<noteq> []" by (metis dropWhile.simps(1) rev.simps(1))
    have "rev ?d = takeWhile is_space (rev ?d) @ ?r" by simp
    then have "?d = rev ?r @ rev (takeWhile is_space (rev ?d))"
      by (metis rev_append rev_rev_ident)
    then have "hd ?d = hd (rev ?r)" using False by (metis hd_append2 rev_is_Nil_conv)
    moreover have "\<not> is_space (hd ?d)" using 2 dne by blast
    moreover have "rev ?r \<noteq> []" using False by simp
    ultimately show ?thesis using l unfolding strip_def by metis
  qed
qed

text \<open>
  C7. When Rekognition answers with the label names \<open>vision\<close> and the object has the
  metadata \<open>metadata\<close>, the labels of the document are \<open>vision\<close> followed by the pieces
  of the entry \<open>customlabels\<close> split at the commas, each stripped of white space, in
  order and with nothing removed; a missing or empty entry adds nothing.
\<close>

theorem aggregated_labels:
  assumes "rekognition_detect_labels e bucket key = Inr vision"
    and "s3_head_object e bucket key = Inr metadata"
  shows "all_labels e bucket key =
           vision @ (case metadata ''customlabels'' of
                       None \<Rightarrow> []
                     | Some csv \<Rightarrow> if csv = [] then [] else map strip (split_on CHR '','' csv)) \<and>
         map_of (make_photo_document e bucket key) ''labels'' = Some (PList (all_labels e bucket key))"
  using assms
  by (simp add: all_labels_def detect_labels_def get_custom_labels_def make_photo_document_def
        split: option.splits)

theorem aggregated_labels_witness:
  "rekognition_detect_labels env1 ''photos'' ''vacation/beach1.jpg'' = Inr [''Beach'', ''Ocean''] \<and>
   s3_head_object env1 ''photos'' ''vacation/beach1.jpg'' = Inr [''customlabels'' \<mapsto> ''Sunset, Family''] \<and>
   all_labels env1 ''photos'' ''vacation/beach1.jpg'' = [''Beach'', ''Ocean'', ''Sunset'', ''Family'']"
proof -
  have h1: "rekognition_detect_labels env1 ''photos'' ''vacation/beach1.jpg'' = Inr [''Beach'', ''Ocean'']"
    by (simp add: env1_def env0_def)
  have h2: "s3_head_object env1 ''photos'' ''vacation/beach1.jpg'' = Inr [''customlabels'' \<mapsto> ''Sunset, Family'']"
    by (simp add: env1_def env0_def)
  have s: "map strip (split_on CHR '','' ''Sunset, Family'') = [''Sunset'', ''Family'']"
    by code_simp
  show ?thesis using h1 h2 aggregated_labels [OF h1 h2] by (simp add: s)
qed


section \<open>The fingerprint\<close>

text \<open>
  \<open>get_photo_hash\<close> sends nothing to the index and stores nothing. When the read
  succeeds it returns the first 12 digits of the digest of the first 1024 bytes; when
  the read raises it prints the error and returns the key with its separators replaced.
\<close>

lemma get_photo_hash_world:
  assumes "get_photo_hash e w bucket key = (r, w1)"
  shows "os_docs w1 = os_docs w" and "os_requests w1 = os_requests w"
  using assms
  by (auto simp: get_photo_hash_def print_def Let_def split: sum.splits pyval.splits)

lemma get_photo_hash_read:
  assumes "s3_get_object e b k = Inr content"
  shows "get_photo_hash e w (PStr b) (PStr k) =
         (Inr (take 12 (md5_hexdigest e (take 1024 content))), w)"
  using assms by (simp add: get_photo_hash_def get_object_range_def)

lemma get_photo_hash_fallback:
  assumes "s3_get_object e b k = Inl x"
  shows "get_photo_hash e w (PStr b) (PStr k) =
         (Inr (replace CHR ''.'' CHR ''_'' (replace CHR ''/'' CHR ''_'' k)),
          print (Error_generating_hash x) w)"
  using assms by (simp add: get_photo_hash_def get_object_range_def)

text \<open>
  C6. Two objects that are read and whose first 1024 bytes are the same get the same
  fingerprint, the first 12 digits of the digest of these bytes, whatever follows in
  either object, and so the same document identity, \<open>photo_\<close> before the fingerprint.
\<close>

theorem fingerprint_of_first_kilobyte:
  assumes "s3_get_object e b1 k1 = Inr content1"
    and "s3_get_object e b2 k2 = Inr content2"
    and "take 1024 content1 = take 1024 content2"
  shows "\<exists>h. get_photo_hash e w1 (PStr b1) (PStr k1) = (Inr h, w1) \<and>
             get_photo_hash e w2 (PStr b2) (PStr k2) = (Inr h, w2) \<and>
             h = take 12 (md5_hexdigest e (take 1024 content1)) \<and>
             document_id h = ''photo_'' @ h"
  using assms by (simp add: get_photo_hash_read document_id_def)

theorem fingerprint_of_first_kilobyte_witness:
  "s3_get_object env3 ''photos'' ''a.jpg'' = Inr (replicate 1024 7 @ [1]) \<and>
   s3_get_object env3 ''photos'' ''b.jpg'' = Inr (replicate 1024 7 @ [2, 3]) \<and>
   take 1024 (replicate 1024 7 @ [1]) = take 1024 (replicate 1024 (7 :: 8 word) @ [2, 3]) \<and>
   get_photo_hash env3 world0 (PStr ''photos'') (PStr ''a.jpg'') = (Inr ''ffeeddccbbaa'', world0) \<and>
   get_photo_hash env3 world0 (PStr ''photos'') (PStr ''b.jpg'') = (Inr ''ffeeddccbbaa'', world0)"
proof -
  have h1: "s3_get_object env3 ''photos'' ''a.jpg'' = Inr (replicate 1024 7 @ [1])"
    by (simp add: env3_def env1_def env0_def)
  have h2: "s3_get_object env3 ''photos'' ''b.jpg'' = Inr (replicate 1024 7 @ [2, 3])"
    by (simp add: env3_def env1_def env0_def)
  have h3: "take 1024 (replicate 1024 7 @ [1]) = take 1024 (replicate 1024 (7 :: 8 word) @ [2, 3])"
    by simp
  have m: "md5_hexdigest env3 (replicate 1024 7) = ''ffeeddccbbaa99887766554433221100''"
    by (simp add: env3_def env1_def env0_def)
  show ?thesis
    using h1 h2 h3 fingerprint_of_first_kilobyte [OF h1 h2 h3, of world0 world0]
    by (auto simp: m)
qed


section \<open>The duplicate-safe indexer\<close>

lemma writes_append [simp]:
  "writes (w\<lparr>os_requests := os_requests w @ rs\<rparr>) = writes w @ filter is_write rs"
  by (simp add: writes_def)

lemma env1_facts:
  "OPENSEARCH_ENDPOINT env1 = ''https://search.example''"
  "make_awsauth env1 = Inr auth1"
  "head_fault env1 = (\<lambda>u. None)"
  "put_fault env1 = (\<lambda>u. None)"
  "doc_url env1 (document_id ''001122334455'') = url1"
  by (simp_all add: OPENSEARCH_ENDPOINT_def make_awsauth_def env1_def env0_def auth1_def
        doc_url_def document_id_def url1_def AWS_REGION_def SERVICE_def OPENSEARCH_INDEX_def)

lemma doc1_facts:
  "subscript doc1 ''bucket'' = Inr (PStr ''photos'')"
  "subscript doc1 ''objectKey'' = Inr (PStr ''vacation/beach1.jpg'')"
  by (simp_all add: subscript_def doc1_def)

lemma env1_hash:
  "get_photo_hash env1 w (PStr ''photos'') (PStr ''vacation/beach1.jpg'') =
   (Inr ''001122334455'', w)"
proof -
  have "s3_get_object env1 ''photos'' ''vacation/beach1.jpg'' = Inr [1, 2, 3]"
    by (simp add: env1_def env0_def)
  then show ?thesis by (simp add: get_photo_hash_read) (simp add: env1_def env0_def)
qed

text \<open>
  C1, as stated, fails. \<open>index_photo\<close> takes the identity for stored only when the
  existence check is answered 200. Here the index stores a document under the identity
  and answers the check with 500: \<open>index_photo\<close> sends the write, the stored document
  is replaced, and the function returns \<open>True\<close>. And here the index stores nothing
  under the identity and answers the write with 503: one write is sent and the function
  returns \<open>False\<close>.
\<close>

theorem index_photo_duplicate_or_new_counterexample:
  "os_docs world1 url1 = Some doc0 \<and>
   doc_url (env1\<lparr>head_fault := (\<lambda>u. Some (Status 500))\<rparr>) (document_id ''001122334455'') = url1 \<and>
   fst (index_photo (env1\<lparr>head_fault := (\<lambda>u. Some (Status 500))\<rparr>) world1 doc1) = Inr (Some True) \<and>
   writes (snd (index_photo (env1\<lparr>head_fault := (\<lambda>u. Some (Status 500))\<rparr>) world1 doc1))
     = [PUT url1 auth1 doc1] \<and>
   os_docs (snd (index_photo (env1\<lparr>head_fault := (\<lambda>u. Some (Status 500))\<rparr>) world1 doc1)) url1
     = Some doc1 \<and>
   os_docs world0 url1 = None \<and>
   fst (index_photo (env1\<lparr>put_fault := (\<lambda>u. Some (Status 503))\<rparr>) world0 doc1) = Inr (Some False) \<and>
   writes (snd (index_photo (env1\<lparr>put_fault := (\<lambda>u. Some (Status 503))\<rparr>) world0 doc1))
     = [PUT url1 auth1 doc1] \<and>
   os_docs (snd (index_photo (env1\<lparr>put_fault := (\<lambda>u. Some (Status 503))\<rparr>) world0 doc1)) url1
     = None"
proof -
  have a: "os_docs world1 url1 = Some doc0" by (simp add: world1_def)
  have b: "doc_url (env1\<lparr>head_fault := (\<lambda>u. Some (Status 500))\<rparr>) (document_id ''001122334455'') = url1"
    by code_simp
  have c: "fst (index_photo (env1\<lparr>head_fault := (\<lambda>u. Some (Status 500))\<rparr>) world1 doc1) = Inr (Some True)"
    by code_simp
  have d: "writes (snd (index_photo (env1\<lparr>head_fault := (\<lambda>u. Some (Status 500))\<rparr>) world1 doc1))
     = [PUT url1 auth1 doc1]"
    by code_simp
  have e: "os_docs (snd (index_photo (env1\<lparr>head_fault := (\<lambda>u. Some (Status 500))\<rparr>) world1 doc1)) url1
     = Some doc1"
    by code_simp
  have f: "os_docs world0 url1 = None" by (simp add: world0_def)
  have g: "fst (index_photo (env1\<lparr>put_fault := (\<lambda>u. Some (Status 503))\<rparr>) world0 doc1) = Inr (Some False)"
    by code_simp
  have h: "writes (snd (index_photo (env1\<lparr>put_fault := (\<lambda>u. Some (Status 503))\<rparr>) world0 doc1))
     = [PUT url1 auth1 doc1]"
    by code_simp
  have i: "os_docs (snd (index_photo (env1\<lparr>put_fault := (\<lambda>u. Some (Status 503))\<rparr>) world0 doc1)) url1
     = None"
    by code_simp
  from a b c d e f g h i show ?thesis by blast
qed

text \<open>
  C1, amended. Take an invocation with an endpoint and credentials whose document names
  its bucket and key, so that the fingerprint \<open>h\<close> and the document URL \<open>u\<close> are
  computed, and whose existence check is answered with a status \<open>s\<close>; an index that
  serves the check answers 200 exactly when it stores a document under \<open>u\<close>. When \<open>s\<close>
  is 200, \<open>index_photo\<close> sends no write, the index stores what it stored, and the
  function prints that it detected a duplicate and returns \<open>False\<close>. When \<open>s\<close> is any
  other status, it sends exactly one write, a \<open>PUT\<close> of the document to \<open>u\<close>, and
  returns \<open>True\<close> exactly when that write is answered 200 or 201; when the index serves
  the write, the document is stored under \<open>u\<close> and the function returns \<open>True\<close>.
\<close>

theorem index_photo_check_then_write:
  assumes "OPENSEARCH_ENDPOINT e \<noteq> []"
    and "make_awsauth e = Inr auth"
    and "subscript doc ''bucket'' = Inr bucket"
    and "subscript doc ''objectKey'' = Inr key"
    and "get_photo_hash e w bucket key = (Inr h, w1)"
    and "u = doc_url e (document_id h)"
    and "requests_head e w1 u auth = (Inr s, w2)"
    and "index_photo e w doc = (r, w')"
  shows "(head_fault e u = None \<longrightarrow> (s = 200 \<longleftrightarrow> os_docs w u \<noteq> None)) \<and>
         (s = 200 \<longrightarrow>
            r = Inr (Some False) \<and> writes w' = writes w \<and> os_docs w' = os_docs w \<and>
            os_requests w' = os_requests w @ [HEAD u auth] \<and>
            stdout w' = stdout w1 @ [Duplicate_photo_detected h, Photo_is_identical key]) \<and>
         (s \<noteq> 200 \<longrightarrow>
            writes w' = writes w @ [PUT u auth doc] \<and>
            os_requests w' = os_requests w @ [HEAD u auth, PUT u auth doc] \<and>
            r = Inr (Some (fst (requests_put e w2 u auth doc) = Inr 200 \<or>
                           fst (requests_put e w2 u auth doc) = Inr 201))) \<and>
         (s \<noteq> 200 \<and> put_fault e u = None \<longrightarrow>
            r = Inr (Some True) \<and> os_docs w' = (os_docs w)(u \<mapsto> doc))"
proof -
  note hw = get_photo_hash_world [OF assms(5)]
  have wr: "writes w1 = writes w" by (simp add: writes_def hw)
  have w2: "w2 = w1\<lparr>os_requests := os_requests w1 @ [HEAD u auth]\<rparr>"
    using assms(7) by (auto simp: requests_head_def Let_def split: option.splits fault.splits)
  have c1: "head_fault e u = None \<longrightarrow> (s = 200 \<longleftrightarrow> os_docs w u \<noteq> None)"
    using assms(7) hw by (auto simp: requests_head_def Let_def split: if_splits)
  have ip: "index_photo e w doc =
      (if s = 200
       then (Inr (Some False),
             print (Photo_is_identical key) (print (Duplicate_photo_detected h) w2))
       else (case requests_put e w2 u auth doc of
               (Inl x, w3) \<Rightarrow> (Inr (Some False), print (Error_indexing x) w3)
             | (Inr t, w3) \<Rightarrow>
                 if t = 200 \<or> t = 201
                 then (Inr (Some True),
                       print (New_photo_indexed h) (print (OpenSearch_response t) w3))
                 else (Inr (Some False),
                       print (Failed_to_index t) (print (OpenSearch_response t) w3))))"
    using assms(1-4,6)
    by (simp add: index_photo_def index_photo_try_def assms(5) assms(7) [unfolded assms(6)]
          Let_def split: prod.splits sum.splits)
  have c2: "s = 200 \<longrightarrow>
            r = Inr (Some False) \<and> writes w' = writes w \<and> os_docs w' = os_docs w \<and>
            os_requests w' = os_requests w @ [HEAD u auth] \<and>
            stdout w' = stdout w1 @ [Duplicate_photo_detected h, Photo_is_identical key]"
    using assms(8) hw wr unfolding ip w2 by (auto simp: print_def writes_def)
  have c3: "s \<noteq> 200 \<longrightarrow>
            writes w' = writes w @ [PUT u auth doc] \<and>
            os_requests w' = os_requests w @ [HEAD u auth, PUT u auth doc] \<and>
            r = Inr (Some (fst (requests_put e w2 u auth doc) = Inr 200 \<or>
                           fst (requests_put e w2 u auth doc) = Inr 201))"
    using assms(8) hw wr unfolding ip w2
    by (cases "put_fault e u" rule: option.exhaust; cases "the (put_fault e u)")
       (auto simp: requests_put_def Let_def print_def writes_def split: if_splits)
  have c4: "s \<noteq> 200 \<and> put_fault e u = None \<longrightarrow>
            r = Inr (Some True) \<and> os_docs w' = (os_docs w)(u \<mapsto> doc)"
    using assms(8) hw unfolding ip w2
    by (auto simp: requests_put_def Let_def print_def split: if_splits)
  from c1 c2 c3 c4 show ?thesis by blast
qed

theorem index_photo_check_then_write_witness:
  "fst (index_photo env1 world0 doc1) = Inr (Some True) \<and>
   writes (snd (index_photo env1 world0 doc1)) = [PUT url1 auth1 doc1] \<and>
   os_docs (snd (index_photo env1 world0 doc1)) url1 = Some doc1 \<and>
   fst (index_photo env1 world1 doc1) = Inr (Some False) \<and>
   writes (snd (index_photo env1 world1 doc1)) = [] \<and>
   os_docs (snd (index_photo env1 world1 doc1)) = [url1 \<mapsto> doc0]"
proof -
  have e: "OPENSEARCH_ENDPOINT env1 \<noteq> []" by (simp add: env1_facts)
  have u: "url1 = doc_url env1 (document_id ''001122334455'')" by (simp add: env1_facts)
  have pf: "put_fault env1 url1 = None" by (simp add: env1_facts)
  have p: "index_photo env1 w doc1 = (fst (index_photo env1 w doc1), snd (index_photo env1 w doc1))"
    for w by simp
  have h0: "requests_head env1 world0 url1 auth1 =
              (Inr 404, world0\<lparr>os_requests := os_requests world0 @ [HEAD url1 auth1]\<rparr>)"
    by (simp add: requests_head_def env1_facts world0_def)
  have h1: "requests_head env1 world1 url1 auth1 =
              (Inr 200, world1\<lparr>os_requests := os_requests world1 @ [HEAD url1 auth1]\<rparr>)"
    by (simp add: requests_head_def env1_facts world1_def)
  note new = index_photo_check_then_write
    [OF e env1_facts(2) doc1_facts env1_hash u h0 p [of world0]]
  note dup = index_photo_check_then_write
    [OF e env1_facts(2) doc1_facts env1_hash u h1 p [of world1]]
  have w0: "os_docs world0 url1 = None" "writes world0 = []"
    by (simp_all add: world0_def writes_def)
  have w1: "writes world1 = []" "os_docs world1 = [url1 \<mapsto> doc0]"
    by (simp_all add: world1_def writes_def)
  show ?thesis using new dup w0 w1 pf by (simp add: world0_def requests_put_def)
qed


section \<open>Failures of the indexer\<close>

text \<open>
  An exception of the \<open>try\<close> block becomes \<open>False\<close>; such exceptions come from the
  credentials, from the fingerprinting line, and from a request that is lost.
\<close>

lemma index_photo_raise:
  assumes "OPENSEARCH_ENDPOINT e \<noteq> []" and "index_photo_try e w doc = (Inl x, w1)"
  shows "index_photo e w doc = (Inr (Some False), print (Error_indexing x) w1)"
  using assms by (simp add: index_photo_def)

lemma index_photo_try_auth:
  "make_awsauth e = Inl x \<Longrightarrow> index_photo_try e w doc = (Inl x, w)"
  by (simp add: index_photo_try_def)

lemma index_photo_try_fingerprint:
  assumes "make_awsauth e = Inr auth"
    and "subscript doc ''bucket'' = Inr bucket" and "subscript doc ''objectKey'' = Inr key"
    and "get_photo_hash e w bucket key = (Inl x, w1)"
  shows "index_photo_try e w doc = (Inl x, w1)"
  using assms by (simp add: index_photo_try_def)

lemma index_photo_try_check_transport:
  assumes "make_awsauth e = Inr auth"
    and "subscript doc ''bucket'' = Inr bucket" and "subscript doc ''objectKey'' = Inr key"
    and "get_photo_hash e w bucket key = (Inr h, w1)"
    and "head_fault e (doc_url e (document_id h)) = Some Transport"
  shows "fst (index_photo_try e w doc) = Inl ConnectionError"
  using assms by (simp add: index_photo_try_def requests_head_def)

lemma index_photo_try_write_transport:
  assumes "make_awsauth e = Inr auth"
    and "subscript doc ''bucket'' = Inr bucket" and "subscript doc ''objectKey'' = Inr key"
    and "get_photo_hash e w bucket key = (Inr h, w1)"
    and "head_fault e (doc_url e (document_id h)) = None"
    and "os_docs w (doc_url e (document_id h)) = None"
    and "put_fault e (doc_url e (document_id h)) = Some Transport"
  shows "fst (index_photo_try e w doc) = Inl ConnectionError"
  using assms get_photo_hash_world [OF assms(4)]
  by (simp add: index_photo_try_def requests_head_def requests_put_def)

lemma requests_head_cases:
  obtains (raised) w2 where "requests_head e w u auth = (Inl ConnectionError, w2)" "stdout w2 = stdout w"
  | (answered) n w2 where "requests_head e w u auth = (Inr n, w2)" "stdout w2 = stdout w"
  by (cases "head_fault e u" rule: option.exhaust; cases "the (head_fault e u)")
     (auto simp: requests_head_def)

lemma requests_put_cases:
  obtains (raised) w2 where "requests_put e w u auth doc = (Inl ConnectionError, w2)" "stdout w2 = stdout w"
  | (answered) n w2 where "requests_put e w u auth doc = (Inr n, w2)" "stdout w2 = stdout w"
  by (cases "put_fault e u" rule: option.exhaust; cases "the (put_fault e u)")
     (auto simp: requests_put_def)

lemma told_print [simp]:
  "told b (print (New_photo_indexed h) w) = b"
  "told b (print (Photo_is_identical k) w) = (\<not> b)"
  "told b (print (Failed_to_index n) w) = (\<not> b \<and> n \<noteq> 200 \<and> n \<noteq> 201)"
  "told b (print (Error_indexing x) w) = (\<not> b)"
  by (simp_all add: told_def print_def)

lemma index_photo_try_told:
  assumes "index_photo_try e w doc = (Inr b, w')"
  shows "told b w'"
proof (cases "make_awsauth e")
  case (Inl x)
  with assms show ?thesis by (simp add: index_photo_try_def)
next
  case auth: (Inr awsauth)
  show ?thesis
  proof (cases "subscript doc ''bucket''")
    case (Inl x)
    with assms auth show ?thesis by (simp add: index_photo_try_def)
  next
    case bucket: (Inr bucket)
    show ?thesis
    proof (cases "subscript doc ''objectKey''")
      case (Inl x)
      with assms auth bucket show ?thesis by (simp add: index_photo_try_def)
    next
      case key: (Inr key)
      obtain hr w1 where hash: "get_photo_hash e w bucket key = (hr, w1)"
        by (cases "get_photo_hash e w bucket key")
      show ?thesis
      proof (cases hr)
        case (Inl x)
        with assms auth bucket key hash show ?thesis by (simp add: index_photo_try_def)
      next
        case h: (Inr h)
        let ?u = "doc_url e (document_id h)"
        show ?thesis
        proof (cases rule: requests_head_cases [of e w1 ?u awsauth])
          case (raised w2)
          with assms auth bucket key hash h show ?thesis by (simp add: index_photo_try_def)
        next
          case check: (answered n w2)
          show ?thesis
          proof (cases "n = 200")
            case True
            with assms auth bucket key hash h check show ?thesis
              by (auto simp: index_photo_try_def)
          next
            case False
            show ?thesis
            proof (cases rule: requests_put_cases [of e w2 ?u awsauth doc])
              case (raised w3)
              with assms auth bucket key hash h check False show ?thesis
                by (simp add: index_photo_try_def)
            next
              case (answered m w3)
              with assms auth bucket key hash h check False show ?thesis
                by (auto simp: index_photo_try_def Let_def split: if_splits)
            qed
          qed
        qed
      qed
    qed
  qed
qed

text \<open>
  When the \<open>try\<close> block returns \<open>True\<close>: every step before the return succeeded, the
  check was answered with a status other than 200 and the write with 200 or 201.
\<close>

lemma index_photo_try_True_iff:
  "fst (index_photo_try e w doc) = Inr True \<longleftrightarrow>
     (\<exists>auth bucket key h w1 s w2 t w3.
        make_awsauth e = Inr auth \<and>
        subscript doc ''bucket'' = Inr bucket \<and>
        subscript doc ''objectKey'' = Inr key \<and>
        get_photo_hash e w bucket key = (Inr h, w1) \<and>
        requests_head e w1 (doc_url e (document_id h)) auth = (Inr s, w2) \<and> s \<noteq> 200 \<and>
        requests_put e w2 (doc_url e (document_id h)) auth doc = (Inr t, w3) \<and>
        (t = 200 \<or> t = 201))"
proof (cases "make_awsauth e")
  case (Inl x)
  then show ?thesis by (simp add: index_photo_try_def)
next
  case auth: (Inr awsauth)
  show ?thesis
  proof (cases "subscript doc ''bucket''")
    case (Inl x)
    with auth show ?thesis by (simp add: index_photo_try_def)
  next
    case bucket: (Inr bucket)
    show ?thesis
    proof (cases "subscript doc ''objectKey''")
      case (Inl x)
      with auth bucket show ?thesis by (simp add: index_photo_try_def)
    next
      case key: (Inr key)
      obtain hr w1 where hash: "get_photo_hash e w bucket key = (hr, w1)"
        by (cases "get_photo_hash e w bucket key")
      show ?thesis
      proof (cases hr)
        case (Inl x)
        with auth bucket key hash show ?thesis by (simp add: index_photo_try_def)
      next
        case h: (Inr h)
        let ?u = "doc_url e (document_id h)"
        obtain cr w2 where check: "requests_head e w1 ?u awsauth = (cr, w2)"
          by (cases "requests_head e w1 ?u awsauth")
        show ?thesis
        proof (cases cr)
          case (Inl x)
          with auth bucket key hash h check show ?thesis by (simp add: index_photo_try_def)
        next
          case s: (Inr s)
          show ?thesis
          proof (cases "s = 200")
            case True
            with auth bucket key hash h check s show ?thesis
              by (simp add: index_photo_try_def)
          next
            case False
            obtain pr w3 where put: "requests_put e w2 ?u awsauth doc = (pr, w3)"
              by (cases "requests_put e w2 ?u awsauth doc")
            show ?thesis
            proof (cases pr)
              case (Inl x)
              with auth bucket key hash h check s False put show ?thesis
                by (simp add: index_photo_try_def)
            next
              case (Inr t)
              with auth bucket key hash h check s False put show ?thesis
                by (simp add: index_photo_try_def Let_def)
            qed
          qed
        qed
      qed
    qed
  qed
qed

text \<open>
  C10. \<open>index_photo\<close> never hands an exception to its caller: without an endpoint it
  returns \<open>None\<close>, and with one it returns a Boolean. That Boolean is \<open>True\<close> exactly
  when the credentials are there, the fingerprinting line yields a fingerprint, the
  existence check is answered with a status other than 200 and the write is answered
  200 or 201. In every other case it is the same \<open>False\<close>: missing credentials, an
  exception of the fingerprinting line, a lost check or write, a write answered with
  another status, and a duplicate. The last line printed tells these apart; the
  return value does not.
\<close>

theorem index_photo_returns:
  "(OPENSEARCH_ENDPOINT e = [] \<longrightarrow>
      index_photo e w doc = (Inr None, print Endpoint_not_configured w)) \<and>
   (OPENSEARCH_ENDPOINT e \<noteq> [] \<longrightarrow>
      (\<exists>b w'. index_photo e w doc = (Inr (Some b), w') \<and>
         (b \<longleftrightarrow>
            (\<exists>auth bucket key h w1 s w2 t w3.
               make_awsauth e = Inr auth \<and>
               subscript doc ''bucket'' = Inr bucket \<and>
               subscript doc ''objectKey'' = Inr key \<and>
               get_photo_hash e w bucket key = (Inr h, w1) \<and>
               requests_head e w1 (doc_url e (document_id h)) auth = (Inr s, w2) \<and> s \<noteq> 200 \<and>
               requests_put e w2 (doc_url e (document_id h)) auth doc = (Inr t, w3) \<and>
               (t = 200 \<or> t = 201))) \<and>
         stdout w' \<noteq> [] \<and>
         (case last (stdout w') of
            New_photo_indexed h \<Rightarrow> b
          | Photo_is_identical k \<Rightarrow> \<not> b
          | Failed_to_index status \<Rightarrow> \<not> b \<and> status \<noteq> 200 \<and> status \<noteq> 201
          | Error_indexing x \<Rightarrow> \<not> b
          | _ \<Rightarrow> False)))"
proof -
  obtain res w1 where t: "index_photo_try e w doc = (res, w1)"
    by (cases "index_photo_try e w doc")
  note iff = index_photo_try_True_iff [of e w doc, unfolded t fst_conv]
  have "\<exists>b w'. index_photo e w doc = (Inr (Some b), w') \<and> (b \<longleftrightarrow> res = Inr True) \<and> told b w'"
    if "OPENSEARCH_ENDPOINT e \<noteq> []"
  proof (cases res)
    case (Inl x)
    with t that show ?thesis by (auto simp: index_photo_def)
  next
    case (Inr b)
    with t that index_photo_try_told [of e w doc b w1] show ?thesis
      by (simp add: index_photo_def)
  qed
  then show ?thesis unfolding iff by (auto simp: told_def index_photo_def)
qed

theorem index_photo_returns_witness:
  "fst (index_photo (env1\<lparr>head_fault := (\<lambda>u. Some Transport)\<rparr>) world0 doc1) = Inr (Some False) \<and>
   fst (index_photo (env1\<lparr>put_fault := (\<lambda>u. Some (Status 503))\<rparr>) world0 doc1) = Inr (Some False) \<and>
   fst (index_photo (env1\<lparr>get_credentials := None\<rparr>) world0 doc1) = Inr (Some False) \<and>
   fst (index_photo env1 world0 []) = Inr (Some False) \<and>
   fst (index_photo env1 (world0\<lparr>os_docs := [url1 \<mapsto> doc1]\<rparr>) doc1) = Inr (Some False) \<and>
   fst (index_photo env1 world0 doc1) = Inr (Some True) \<and>
   index_photo env0 world0 doc1 = (Inr None, print Endpoint_not_configured world0)"
proof -
  have a: "fst (index_photo (env1\<lparr>head_fault := (\<lambda>u. Some Transport)\<rparr>) world0 doc1) = Inr (Some False)"
    by code_simp
  have b: "fst (index_photo (env1\<lparr>put_fault := (\<lambda>u. Some (Status 503))\<rparr>) world0 doc1) = Inr (Some False)"
    by code_simp
  have c: "fst (index_photo (env1\<lparr>get_credentials := None\<rparr>) world0 doc1) = Inr (Some False)"
    by code_simp
  have d: "fst (index_photo env1 world0 []) = Inr (Some False)"
    by code_simp
  have e: "fst (index_photo env1 (world0\<lparr>os_docs := [url1 \<mapsto> doc1]\<rparr>) doc1) = Inr (Some False)"
    by code_simp
  have f: "fst (index_photo env1 world0 doc1) = Inr (Some True)"
    by code_simp
  have g: "OPENSEARCH_ENDPOINT env0 = []" by (simp add: OPENSEARCH_ENDPOINT_def env0_def)
  show ?thesis using index_photo_returns [of env0 world0 doc1] a b c d e f g by simp
qed

end
